theory Spec2Isabelle
  imports Main "HOL-Library.Word" "HOL-Library.Char_ord" "HOL-Library.List_Lexorder"
    "HOL-Library.Multiset"
begin

unbundle bit_operations_syntax

section \<open>Common notions\<close>

text \<open>
  A Python call either returns a value or raises an exception. The exception classes
  that the modelled functions can raise are listed in \<open>exn\<close>.
\<close>

datatype exn =
    ValueError string
  | ZlibError
  | UnicodeDecodeError
  | AttributeError
  | KeyError string
  | HTTPError
  | OtherError string

datatype 'a outcome = Raises exn | Returns 'a

text \<open>The \<open>DlcRecord\<close> dictionaries \<open>{"appid": .., "name": .., "has_depots": ..}\<close>.\<close>

record dlc =
  appid :: string
  name :: string
  has_depots :: bool

section \<open>Ordered source fallback for paid DLCs (\<open>GuiBackend.process_dlcs\<close>)\<close>

text \<open>
  The two installers \<open>_process_dlc_from_zip\<close> and \<open>_process_dlc_from_github\<close> talk to the
  network and the file system. Here they are parameters acting on a world state \<open>'w\<close>:
  \<open>from_zip dlc_id download_url source_name\<close> and \<open>from_github dlc_id repo\<close>.
  The log lines of the loop are kept as events.
\<close>

datatype event =
    Trying string string        \<comment> \<open>info: trying to get DLC (second) from repo (first)\<close>
  | Obtained string string      \<comment> \<open>info: got DLC (second) from repo (first)\<close>
  | SourceRaised string string exn  \<comment> \<open>warning: repo (first) raised for DLC (second)\<close>
  | NoSource string             \<comment> \<open>warning: no source has the DLC\<close>

type_synonym 'w zip_installer = "string \<Rightarrow> string \<Rightarrow> string \<Rightarrow> 'w \<Rightarrow> bool outcome \<times> 'w"
type_synonym 'w github_installer = "string \<Rightarrow> string \<Rightarrow> 'w \<Rightarrow> bool outcome \<times> 'w"

text \<open>The \<open>if repo_value == ... elif ...\<close> chain of the loop body.\<close>

definition dispatch_repo ::
  "'w zip_installer \<Rightarrow> 'w github_installer \<Rightarrow> string \<Rightarrow> string \<Rightarrow> 'w \<Rightarrow> bool outcome \<times> 'w"
where
  "dispatch_repo from_zip from_github repo_value dlc_id w =
    (if repo_value = ''swa'' then
       from_zip dlc_id (''https://api.printedwaste.com/gfk/download/'' @ dlc_id) ''SWA V2'' w
     else if repo_value = ''cysaw'' then
       from_zip dlc_id (''https://cysaw.top/uploads/'' @ dlc_id @ ''.zip'') ''Cysaw'' w
     else if repo_value = ''furcate'' then
       from_zip dlc_id (''https://furcate.eu/files/'' @ dlc_id @ ''.zip'') ''Furcate'' w
     else if repo_value = ''cngs'' then
       from_zip dlc_id (''https://assiw.cngames.site/qindan/'' @ dlc_id @ ''.zip'') ''CNGS'' w
     else if repo_value = ''steamdatabase'' then
       from_zip dlc_id
         (''https://steamdatabase.s3.eu-north-1.amazonaws.com/'' @ dlc_id @ ''.zip'')
         ''SteamDatabase'' w
     else from_github dlc_id repo_value w)"

text \<open>
  The state of one run of the paid loop: the world, the log, the calls made to the
  installers with what each gave back (in call order), and the two result lists.
\<close>

record 'w paid_state =
  world :: 'w
  events :: "event list"
  calls :: "(string \<times> string \<times> bool outcome) list"
  success :: "dlc list"
  failed :: "dlc list"

text \<open>
  The inner loop \<open>for repo_value in selected_repos\<close> for one DLC; the Boolean is the
  variable \<open>found\<close> when the loop ends. A \<open>True\<close> result breaks out of the loop, a
  \<open>False\<close> result falls through to the next source, an exception is logged and the
  loop continues.
\<close>

fun try_repos ::
  "'w zip_installer \<Rightarrow> 'w github_installer \<Rightarrow> dlc \<Rightarrow> string list \<Rightarrow> 'w paid_state
     \<Rightarrow> bool \<times> 'w paid_state"
where
  "try_repos fz fg d [] s = (False, s)"
| "try_repos fz fg d (repo_value # rest) s =
    (let s1 = s\<lparr>events := events s @ [Trying repo_value (appid d)]\<rparr>;
         (res, w') = dispatch_repo fz fg repo_value (appid d) (world s1);
         s2 = s1\<lparr>world := w', calls := calls s1 @ [(repo_value, appid d, res)]\<rparr>
     in case res of
          Returns True \<Rightarrow>
            (True, s2\<lparr>events := events s2 @ [Obtained repo_value (appid d)],
                      success := success s2 @ [d]\<rparr>)
        | Returns False \<Rightarrow> try_repos fz fg d rest s2
        | Raises e \<Rightarrow>
            try_repos fz fg d rest
              (s2\<lparr>events := events s2 @ [SourceRaised repo_value (appid d) e]\<rparr>))"

text \<open>The body of \<open>for dlc in dlcs["paid"]\<close>, and the loop itself.\<close>

definition process_paid_dlc ::
  "'w zip_installer \<Rightarrow> 'w github_installer \<Rightarrow> string list \<Rightarrow> dlc \<Rightarrow> 'w paid_state
     \<Rightarrow> 'w paid_state"
where
  "process_paid_dlc fz fg selected_repos d s =
    (case try_repos fz fg d selected_repos s of
       (True, s') \<Rightarrow> s'
     | (False, s') \<Rightarrow>
         s'\<lparr>events := events s' @ [NoSource (appid d)], failed := failed s' @ [d]\<rparr>)"

fun process_paid ::
  "'w zip_installer \<Rightarrow> 'w github_installer \<Rightarrow> string list \<Rightarrow> dlc list \<Rightarrow> 'w paid_state
     \<Rightarrow> 'w paid_state"
where
  "process_paid fz fg selected_repos [] s = s"
| "process_paid fz fg selected_repos (d # ds) s =
     process_paid fz fg selected_repos ds (process_paid_dlc fz fg selected_repos d s)"

text \<open>What one resolution adds to the record of calls, and whether a call succeeded.\<close>

definition new_calls :: "'w paid_state \<Rightarrow> 'w paid_state \<Rightarrow> (string \<times> string \<times> bool outcome) list"
where
  "new_calls s s' = drop (length (calls s)) (calls s')"






section \<open>Classifying the DLCs of a title (\<open>GuiBackend.get_game_dlcs\<close>)\<close>

text \<open>
  \<open>_analyze_single_dlc\<close> asks the network for the depots and the name of one DLC; it
  returns a \<open>DlcRecord\<close> or raises. It is the parameter \<open>analyze\<close>.
  \<open>asyncio.gather(*tasks, return_exceptions=True)\<close> gives, in the order of the batch,
  the value or the exception of each task. The scan state holds the counter
  \<open>processed_count\<close>, the calls made to \<open>progress_callback\<close>, the exceptions logged for
  single items, the two result lists and the batches gathered so far. The callback is
  taken to return normally, so the \<open>except\<close> around a batch is never entered.
\<close>

record dlc_scan =
  processed_count :: nat
  progress :: "(nat \<times> nat) list"
  item_errors :: "exn list"
  free_dlcs :: "dlc list"
  paid_dlcs :: "dlc list"
  batches :: "string list list"

text \<open>\<open>batch_size = 10\<close>.\<close>

definition batch_size :: nat where
  "batch_size = 10"

text \<open>
  The loop \<open>for i, result in enumerate(batch_results)\<close>. \<open>has_callback\<close> says whether a
  \<open>progress_callback\<close> was passed; \<open>n_total\<close> is \<open>len(all_dlc_ids)\<close>.
\<close>

fun handle_results :: "bool \<Rightarrow> nat \<Rightarrow> dlc outcome list \<Rightarrow> dlc_scan \<Rightarrow> dlc_scan" where
  "handle_results has_callback n_total [] s = s"
| "handle_results has_callback n_total (result # rest) s =
    (let s1 = s\<lparr>processed_count := processed_count s + 1\<rparr>;
         s2 = (if has_callback
               then s1\<lparr>progress := progress s1 @ [(processed_count s1, n_total)]\<rparr>
               else s1)
     in case result of
          Raises e \<Rightarrow>
            handle_results has_callback n_total rest (s2\<lparr>item_errors := item_errors s2 @ [e]\<rparr>)
        | Returns d \<Rightarrow>
            handle_results has_callback n_total rest
              (if has_depots d then s2\<lparr>paid_dlcs := paid_dlcs s2 @ [d]\<rparr>
               else s2\<lparr>free_dlcs := free_dlcs s2 @ [d]\<rparr>))"

text \<open>The loop \<open>for batch_start in range(0, len(all_dlc_ids), batch_size)\<close>.\<close>

function batch_loop ::
  "(string \<Rightarrow> dlc outcome) \<Rightarrow> bool \<Rightarrow> string list \<Rightarrow> nat \<Rightarrow> dlc_scan \<Rightarrow> dlc_scan"
where
  "batch_loop analyze has_callback all_dlc_ids batch_start s =
    (if batch_start < length all_dlc_ids then
       (let batch_end = min (batch_start + batch_size) (length all_dlc_ids);
            batch_dlc_ids = take (batch_end - batch_start) (drop batch_start all_dlc_ids);
            batch_results = map analyze batch_dlc_ids;
            s1 = handle_results has_callback (length all_dlc_ids) batch_results
                   (s\<lparr>batches := batches s @ [batch_dlc_ids]\<rparr>)
        in batch_loop analyze has_callback all_dlc_ids (batch_start + batch_size) s1)
     else s)"
  by pat_completeness auto
termination
  by (relation "measure (\<lambda>(analyze, has_callback, all_dlc_ids, batch_start, s).
        length all_dlc_ids - batch_start)") (auto simp: batch_size_def)

declare batch_loop.simps [simp del]

definition empty_scan :: dlc_scan where
  "empty_scan = \<lparr>processed_count = 0, progress = [], item_errors = [], free_dlcs = [],
     paid_dlcs = [], batches = []\<rparr>"

text \<open>
  The dictionary returned by \<open>get_game_dlcs\<close>, with the final scan state beside it. The
  list \<open>all_dlc_ids\<close> is what \<open>_get_dlc_ids\<close> returned and \<open>main_name\<close> what
  \<open>_get_game_name\<close> returned for the title. The early return for an empty list has no
  \<open>game_name\<close> key.
\<close>

record dlc_listing =
  game_name :: "string option"
  free :: "dlc list"
  paid :: "dlc list"
  total' :: nat

definition get_game_dlcs ::
  "(string \<Rightarrow> dlc outcome) \<Rightarrow> string \<Rightarrow> bool \<Rightarrow> string list \<Rightarrow> dlc_listing \<times> dlc_scan"
where
  "get_game_dlcs analyze main_name has_callback all_dlc_ids =
    (if all_dlc_ids = [] then
       (\<lparr>game_name = None, free = [], paid = [], total' = 0\<rparr>, empty_scan)
     else
       (let s = batch_loop analyze has_callback all_dlc_ids 0 empty_scan
        in (\<lparr>game_name = Some main_name, free = free_dlcs s, paid = paid_dlcs s,
              total' = length all_dlc_ids\<rparr>, s)))"

text \<open>The values and the exceptions among gathered results, in order.\<close>

fun returned :: "'a outcome list \<Rightarrow> 'a list" where
  "returned [] = []"
| "returned (Returns x # rs) = x # returned rs"
| "returned (Raises e # rs) = returned rs"

fun raised :: "'a outcome list \<Rightarrow> exn list" where
  "raised [] = []"
| "raised (Returns x # rs) = raised rs"
| "raised (Raises e # rs) = e # raised rs"

text \<open>Example data: 23 candidate ids; the fetch for id 7 raises, id 12 has a depot.\<close>

definition ex_analyze :: "string \<Rightarrow> dlc outcome" where
  "ex_analyze dlc_id =
     (if dlc_id = ''7'' then Raises (ValueError ''download'')
      else Returns \<lparr>appid = dlc_id, name = ''DLC '' @ dlc_id, has_depots = (dlc_id = ''12'')\<rparr>)"

definition ex_ids :: "string list" where
  "ex_ids = [''1'', ''2'', ''3'', ''4'', ''5'', ''6'', ''7'', ''8'', ''9'', ''10'', ''11'', ''12'',
     ''13'', ''14'', ''15'', ''16'', ''17'', ''18'', ''19'', ''20'', ''21'', ''22'', ''23'']"

section \<open>Searching all repositories (\<open>GuiBackend.search_all_repos\<close>, search-all mode of \<open>GameBoxGUI\<close>)\<close>

























section \<open>Region check and download mirrors (\<open>checkcn\<close>, \<open>get_from_url\<close>)\<close>

text \<open>Parsed JSON, with Python's truth value \<open>bool(x)\<close> and \<open>dict.get\<close> (\<open>None\<close> is \<open>JNull\<close>).\<close>

datatype json =
    JNull
  | JBool bool
  | JNum int
  | JStr string
  | JList "json list"
  | JObj "(string \<times> json) list"

fun truthy :: "json \<Rightarrow> bool" where
  "truthy JNull = False"
| "truthy (JBool b) = b"
| "truthy (JNum n) = (n \<noteq> 0)"
| "truthy (JStr s) = (s \<noteq> [])"
| "truthy (JList xs) = (xs \<noteq> [])"
| "truthy (JObj kvs) = (kvs \<noteq> [])"

definition json_get :: "(string \<times> json) list \<Rightarrow> string \<Rightarrow> json" where
  "json_get kvs k = (case map_of kvs k of None \<Rightarrow> JNull | Some v \<Rightarrow> v)"

text \<open>What \<open>checkcn\<close> logs: the two info lines and the warning of the \<open>except\<close> branch.\<close>

datatype region_event =
    NonCnDetected json
  | CnDetected
  | RegionCheckFailed

text \<open>
  \<open>os.environ\<close>. The argument \<open>reply\<close> of \<open>checkcn\<close> is what
  \<open>client.get(...)\<close> followed by \<open>r.json()\<close> gives: an exception (no connection, a body
  that is not JSON) or the parsed value. \<open>.get\<close> on a value that is not an object raises
  and ends in the \<open>except\<close> branch as well.
\<close>

type_synonym environ = "string \<rightharpoonup> string"

definition checkcn :: "json outcome \<Rightarrow> environ \<Rightarrow> environ \<times> region_event" where
  "checkcn reply env =
    (case reply of
       Raises e \<Rightarrow> (env(''IS_CN'' \<mapsto> ''yes''), RegionCheckFailed)
     | Returns (JObj kvs) \<Rightarrow>
         (if \<not> truthy (json_get kvs ''flag'')
          then (env(''IS_CN'' \<mapsto> ''no''), NonCnDetected (json_get kvs ''country''))
          else (env(''IS_CN'' \<mapsto> ''yes''), CnDetected))
     | Returns _ \<Rightarrow> (env(''IS_CN'' \<mapsto> ''yes''), RegionCheckFailed))"

text \<open>The URL list of \<open>get_from_url\<close>.\<close>

definition cn_urls :: "string \<Rightarrow> string \<Rightarrow> string \<Rightarrow> string list" where
  "cn_urls sha path repo =
     [''https://cdn.jsdmirror.com/gh/'' @ repo @ ''@'' @ sha @ ''/'' @ path,
      ''https://raw.gitmirror.com/'' @ repo @ ''/'' @ sha @ ''/'' @ path]"

definition official_url :: "string \<Rightarrow> string \<Rightarrow> string \<Rightarrow> string" where
  "official_url sha path repo =
     ''https://raw.githubusercontent.com/'' @ repo @ ''/'' @ sha @ ''/'' @ path"

definition mirror_urls :: "environ \<Rightarrow> string \<Rightarrow> string \<Rightarrow> string \<Rightarrow> string list" where
  "mirror_urls env sha path repo =
     (if env ''IS_CN'' = Some ''yes'' then cn_urls sha path repo
      else [official_url sha path repo])"

text \<open>
  The loop \<open>for url in urls\<close>: \<open>http_get\<close> gives the status code and the content, or raises.
  The second component lists the URLs requested, in order.
\<close>

fun try_urls ::
  "(string \<Rightarrow> (nat \<times> 'b) outcome) \<Rightarrow> string \<Rightarrow> string list \<Rightarrow> string list
     \<Rightarrow> 'b outcome \<times> string list"
where
  "try_urls http_get path [] tried = (Raises (OtherError path), tried)"
| "try_urls http_get path (url # urls) tried =
    (case http_get url of
       Returns (status_code, content) \<Rightarrow>
         (if status_code = 200 then (Returns content, tried @ [url])
          else try_urls http_get path urls (tried @ [url]))
     | Raises e \<Rightarrow> try_urls http_get path urls (tried @ [url]))"

definition get_from_url ::
  "(string \<Rightarrow> (nat \<times> 'b) outcome) \<Rightarrow> environ \<Rightarrow> string \<Rightarrow> string \<Rightarrow> string
     \<Rightarrow> 'b outcome \<times> string list"
where
  "get_from_url http_get env sha path repo =
     try_urls http_get path (mirror_urls env sha path repo) []"

text \<open>
  Example data: a server that answers every request with status 200, and an environment
  in which \<open>IS_CN\<close> is \<open>yes\<close>.
\<close>

definition ex_http_get :: "string \<Rightarrow> (nat \<times> string) outcome" where
  "ex_http_get url = Returns (200, ''data'')"

definition ex_env_cn :: environ where
  "ex_env_cn = Map.empty(''IS_CN'' \<mapsto> ''yes'')"

section \<open>Merging depot keys into the structured config (\<open>GuiBackend.depotkey_merge\<close>)\<close>

text \<open>
  What \<open>vdf.loads\<close> returns: nested dictionaries with string keys whose values are strings
  or dictionaries. A Python dictionary keeps its keys in insertion order; it is a list of
  pairs here, read and written at the first pair with the key.
\<close>

datatype vdf = VStr string | VDict "(string \<times> vdf) list"

type_synonym pydict = "(string \<times> vdf) list"

text \<open>The key names the function uses.\<close>

definition k_ics :: string where "k_ics = ''InstallConfigStore''"
definition k_software :: string where "k_software = ''Software''"
definition k_Valve :: string where "k_Valve = ''Valve''"
definition k_valve :: string where "k_valve = ''valve''"
definition k_depots :: string where "k_depots = ''depots''"

text \<open>The truth value of a parsed value: empty strings and empty dictionaries are false.\<close>

fun vdf_truthy :: "vdf \<Rightarrow> bool" where
  "vdf_truthy (VStr s) = (s \<noteq> [])"
| "vdf_truthy (VDict d) = (d \<noteq> [])"

text \<open>
  \<open>d[k] = v\<close> replaces the value of an existing key in place and appends a new key;
  \<open>d.update(other)\<close> does so for the items of \<open>other\<close> in order.
\<close>

fun dict_set :: "string \<Rightarrow> vdf \<Rightarrow> pydict \<Rightarrow> pydict" where
  "dict_set k v [] = [(k, v)]"
| "dict_set k v ((k', v') # d) = (if k' = k then (k, v) # d else (k', v') # dict_set k v d)"

definition dict_update :: "pydict \<Rightarrow> pydict \<Rightarrow> pydict" where
  "dict_update d other = fold (\<lambda>(k, v). dict_set k v) other d"

text \<open>\<open>x.get(k, {})\<close> and \<open>x.get(k)\<close>; on a string both raise \<open>AttributeError\<close>.\<close>

fun get_or_empty :: "vdf \<Rightarrow> string \<Rightarrow> vdf outcome" where
  "get_or_empty (VStr s) k = Raises AttributeError"
| "get_or_empty (VDict d) k = Returns (case map_of d k of None \<Rightarrow> VDict [] | Some v \<Rightarrow> v)"

fun get_or_none :: "vdf \<Rightarrow> string \<Rightarrow> vdf option outcome" where
  "get_or_none (VStr s) k = Raises AttributeError"
| "get_or_none (VDict d) k = Returns (map_of d k)"

text \<open>
  The expression
  \<open>config.get('InstallConfigStore', {}).get('Software', {}).get('Valve') or ... .get('valve')\<close>:
  the value under \<open>Valve\<close> when it is true, otherwise whatever is under \<open>valve\<close>. The result
  names the key the value was found under; \<open>None\<close> is Python's \<open>None\<close>.
\<close>

definition find_steam :: "pydict \<Rightarrow> (string \<times> vdf) option outcome" where
  "find_steam config =
    (case get_or_empty (VDict config) k_ics of
       Raises e \<Rightarrow> Raises e
     | Returns ics \<Rightarrow>
        (case get_or_empty ics k_software of
           Raises e \<Rightarrow> Raises e
         | Returns software \<Rightarrow>
            (case get_or_none software k_Valve of
               Raises e \<Rightarrow> Raises e
             | Returns upper \<Rightarrow>
                 (if (case upper of None \<Rightarrow> False | Some v \<Rightarrow> vdf_truthy v)
                  then Returns (map_option (Pair k_Valve) upper)
                  else (case get_or_none software k_valve of
                          Raises e \<Rightarrow> Raises e
                        | Returns lower \<Rightarrow> Returns (map_option (Pair k_valve) lower))))))"

text \<open>
  \<open>steam.setdefault('depots', {}).update(depots_config.get('depots', {}))\<close> on the section
  found. \<open>setdefault\<close> and \<open>update\<close> raise on a string; \<open>update\<close> with a string
  argument raises unless the string is empty.
\<close>

definition setdefault_depots :: "pydict \<Rightarrow> pydict" where
  "setdefault_depots sec =
     (case map_of sec k_depots of None \<Rightarrow> sec @ [(k_depots, VDict [])] | Some v \<Rightarrow> sec)"

definition merge_depots :: "vdf \<Rightarrow> pydict \<Rightarrow> vdf outcome" where
  "merge_depots steam depots_config =
    (case steam of
       VStr s \<Rightarrow> Raises AttributeError
     | VDict sec \<Rightarrow>
        (let sec1 = setdefault_depots sec
         in case map_of sec1 k_depots of
              Some (VDict depots) \<Rightarrow>
                (case (case map_of depots_config k_depots of None \<Rightarrow> VDict [] | Some v \<Rightarrow> v) of
                   VDict other \<Rightarrow>
                     Returns (VDict (dict_set k_depots (VDict (dict_update depots other)) sec1))
                 | VStr s \<Rightarrow>
                     (if s = [] then Returns (VDict sec1) else Raises (ValueError ''update'')))
            | _ \<Rightarrow> Raises AttributeError))"

text \<open>
  The section is changed in place inside \<open>config\<close>; here the configuration is rebuilt along
  the path the section was reached by.
\<close>

definition put_steam :: "pydict \<Rightarrow> string \<Rightarrow> vdf \<Rightarrow> pydict" where
  "put_steam config key steam =
    (case map_of config k_ics of
       Some (VDict ics) \<Rightarrow>
        (case map_of ics k_software of
           Some (VDict software) \<Rightarrow>
             dict_set k_ics
               (VDict (dict_set k_software (VDict (dict_set key steam software)) ics)) config
         | _ \<Rightarrow> config)
     | _ \<Rightarrow> config)"

text \<open>
  The configuration written back, \<open>None\<close> when \<open>if not steam\<close> returns early, an exception
  when one is raised on the way.
\<close>

definition merged_config :: "pydict \<Rightarrow> pydict \<Rightarrow> pydict option outcome" where
  "merged_config config depots_config =
    (case find_steam config of
       Raises e \<Rightarrow> Raises e
     | Returns None \<Rightarrow> Returns None
     | Returns (Some (key, steam)) \<Rightarrow>
         (if \<not> vdf_truthy steam then Returns None
          else (case merge_depots steam depots_config of
                  Raises e \<Rightarrow> Raises e
                | Returns steam' \<Rightarrow> Returns (Some (put_steam config key steam')))))"

text \<open>
  \<open>depotkey_merge\<close> itself. The file \<open>config.vdf\<close> is \<open>None\<close> when it does not exist.
  \<open>vdf_loads\<close> stands for reading and parsing the file, \<open>vdf_dumps\<close> for
  \<open>vdf.dumps(config, pretty=True)\<close>; both belong to the \<open>vdf\<close> library and are parameters,
  as is the type \<open>'f\<close> of file contents. Every exception ends in the \<open>except\<close> branch,
  which returns \<open>False\<close>; the file is opened for writing only after the merge in memory.
  Writing the file is taken to succeed.
\<close>

datatype merge_event = ConfigMissing | SectionMissing | MergeFailed exn | MergeDone

record 'f merge_result =
  merge_ok :: bool
  merge_file :: "'f option"
  merge_log :: merge_event

definition depotkey_merge ::
  "('f \<Rightarrow> pydict outcome) \<Rightarrow> (pydict \<Rightarrow> 'f) \<Rightarrow> 'f option \<Rightarrow> pydict \<Rightarrow> 'f merge_result"
where
  "depotkey_merge vdf_loads vdf_dumps config_file depots_config =
    (case config_file of
       None \<Rightarrow> \<lparr>merge_ok = False, merge_file = config_file, merge_log = ConfigMissing\<rparr>
     | Some text \<Rightarrow>
        (case vdf_loads text of
           Raises e \<Rightarrow> \<lparr>merge_ok = False, merge_file = config_file, merge_log = MergeFailed e\<rparr>
         | Returns config \<Rightarrow>
            (case merged_config config depots_config of
               Raises e \<Rightarrow>
                 \<lparr>merge_ok = False, merge_file = config_file, merge_log = MergeFailed e\<rparr>
             | Returns None \<Rightarrow>
                 \<lparr>merge_ok = False, merge_file = config_file, merge_log = SectionMissing\<rparr>
             | Returns (Some config') \<Rightarrow>
                 \<lparr>merge_ok = True, merge_file = Some (vdf_dumps config'), merge_log = MergeDone\<rparr>)))"

text \<open>Following a path of keys from a value.\<close>

fun vdf_path :: "vdf \<Rightarrow> string list \<Rightarrow> vdf option" where
  "vdf_path v [] = Some v"
| "vdf_path (VStr s) (k # ks) = None"
| "vdf_path (VDict d) (k # ks) = (case map_of d k of None \<Rightarrow> None | Some v \<Rightarrow> vdf_path v ks)"

text \<open>
  For stating the properties: the value under one spelling of the parent section, the path
  of the \<open>depots\<close> map below it, and paths of which one is a prefix of the other.
\<close>

definition section_at :: "pydict \<Rightarrow> string \<Rightarrow> vdf option" where
  "section_at config key = vdf_path (VDict config) [k_ics, k_software, key]"

definition depots_path :: "string \<Rightarrow> string list" where
  "depots_path key = [k_ics, k_software, key, k_depots]"

definition comparable :: "string list \<Rightarrow> string list \<Rightarrow> bool" where
  "comparable p q = (take (length q) p = q \<or> take (length p) q = p)"

text \<open>
  The section the merge works on, in the words of the amended claim: the value under
  \<open>Valve\<close> when it is a non-empty section, and the value under \<open>valve\<close> when that is a
  non-empty section and \<open>Valve\<close> is absent or not true. \<open>old_depots sec depots\<close>: the
  section's \<open>depots\<close> entry is absent (then \<open>depots\<close> is empty) or the dictionary \<open>depots\<close>.
\<close>

definition chosen_section :: "pydict \<Rightarrow> string \<Rightarrow> pydict \<Rightarrow> bool" where
  "chosen_section config key sec =
    (sec \<noteq> [] \<and>
     (key = k_Valve \<and> section_at config k_Valve = Some (VDict sec)
      \<or> key = k_valve
        \<and> (case section_at config k_Valve of None \<Rightarrow> True | Some v \<Rightarrow> \<not> vdf_truthy v)
        \<and> section_at config k_valve = Some (VDict sec)))"

definition old_depots :: "pydict \<Rightarrow> pydict \<Rightarrow> bool" where
  "old_depots sec depots =
    (case map_of sec k_depots of None \<Rightarrow> depots = [] | Some v \<Rightarrow> v = VDict depots)"

text \<open>
  Example data: a configuration with the lower-case spelling, two depots and unrelated
  keys; keys for one depot already present and one new depot; the result of the merge; a
  configuration whose \<open>Valve\<close> section is empty.
\<close>

definition ex_config :: pydict where
  "ex_config =
    [(k_ics, VDict
       [(k_software, VDict
          [(k_valve, VDict
             [(''Steam'', VDict [(''AutoUpdateWindowEnabled'', VStr ''0'')]),
              (k_depots, VDict
                 [(''228980'', VDict [(''DecryptionKey'', VStr ''aa11'')]),
                  (''456'', VDict [(''DecryptionKey'', VStr ''0000'')])])])]),
        (''Music'', VDict [(''CrawlAtStartup'', VStr ''0'')])])]"

definition ex_depots_config :: pydict where
  "ex_depots_config =
    [(k_depots, VDict
       [(''456'', VDict [(''DecryptionKey'', VStr ''DEADBEEF'')]),
        (''789'', VDict [(''DecryptionKey'', VStr ''CAFE'')])])]"

definition ex_config_merged :: pydict where
  "ex_config_merged =
    [(k_ics, VDict
       [(k_software, VDict
          [(k_valve, VDict
             [(''Steam'', VDict [(''AutoUpdateWindowEnabled'', VStr ''0'')]),
              (k_depots, VDict
                 [(''228980'', VDict [(''DecryptionKey'', VStr ''aa11'')]),
                  (''456'', VDict [(''DecryptionKey'', VStr ''DEADBEEF'')]),
                  (''789'', VDict [(''DecryptionKey'', VStr ''CAFE'')])])])]),
        (''Music'', VDict [(''CrawlAtStartup'', VStr ''0'')])])]"

definition ex_config_empty_section :: pydict where
  "ex_config_empty_section = [(k_ics, VDict [(k_software, VDict [(k_Valve, VDict [])])])]"

section \<open>Adding free DLCs to an existing script (\<open>GuiBackend.process_dlcs\<close>)\<close>

text \<open>
  A Python string is a list of Unicode code points. The script is opened in text mode
  with the encoding \<open>utf-8\<close>; the content of the file is given as the text it decodes to.
  A literal of the program is the list of the codes of its characters.
\<close>

type_synonym pystr = "nat list"

definition pystr_of :: "string \<Rightarrow> pystr" where
  "pystr_of s = map of_char s"

definition newline :: nat where
  "newline = 0x0A"

definition carriage_return :: nat where
  "carriage_return = 0x0D"










text \<open>
  Reading in text mode translates the line ends: a carriage return followed by a line
  feed, and a carriage return alone, become a line feed. Writing translates every line
  feed to \<open>os.linesep\<close>, which is carriage return and line feed on Windows and a line feed
  elsewhere; \<open>windows\<close> tells which.
\<close>

fun universal_newlines :: "pystr \<Rightarrow> pystr" where
  "universal_newlines [] = []"
| "universal_newlines [c] = [if c = carriage_return then newline else c]"
| "universal_newlines (c # d # cs) =
     (if c = carriage_return \<and> d = newline then newline # universal_newlines cs
      else if c = carriage_return then newline # universal_newlines (d # cs)
      else c # universal_newlines (d # cs))"



























section \<open>Properties of the ordered source fallback\<close>




section \<open>Properties of the DLC classification\<close>

lemma returned_append: "returned (xs @ ys) = returned xs @ returned ys"
  by (induction xs rule: returned.induct) auto

lemma raised_append: "raised (xs @ ys) = raised xs @ raised ys"
  by (induction xs rule: raised.induct) auto

lemma handle_results_effect:
  "handle_results cb n_total rs s =
     s\<lparr>processed_count := processed_count s + length rs,
       progress := progress s @
         (if cb then map (\<lambda>i. (i, n_total)) [Suc (processed_count s) ..< Suc (processed_count s + length rs)] else []),
       item_errors := item_errors s @ raised rs,
       free_dlcs := free_dlcs s @ filter (\<lambda>d. \<not> has_depots d) (returned rs),
       paid_dlcs := paid_dlcs s @ filter has_depots (returned rs)\<rparr>"
proof (induction rs arbitrary: s)
  case Nil
  then show ?case by simp
next
  case (Cons r rs)
  show ?case
    by (cases r) (simp_all add: Cons.IH Let_def upt_conv_Cons del: upt_Suc)
qed

lemma upt_join: "a \<le> m \<Longrightarrow> m \<le> n \<Longrightarrow> [a..<m] @ [m..<n] = [a..<n]"
  using upt_add_eq_append[of a m "n - m"] by simp

lemma batch_loop_fields:
  "processed_count (batch_loop analyze cb ids b s) = processed_count s + (length ids - b)
   \<and> progress (batch_loop analyze cb ids b s) = progress s @
         (if cb then map (\<lambda>i. (i, length ids))
            [Suc (processed_count s) ..< Suc (processed_count s + (length ids - b))] else [])
   \<and> item_errors (batch_loop analyze cb ids b s) = item_errors s @ raised (map analyze (drop b ids))
   \<and> free_dlcs (batch_loop analyze cb ids b s) =
         free_dlcs s @ filter (\<lambda>d. \<not> has_depots d) (returned (map analyze (drop b ids)))
   \<and> paid_dlcs (batch_loop analyze cb ids b s) =
         paid_dlcs s @ filter has_depots (returned (map analyze (drop b ids)))
   \<and> length (batches (batch_loop analyze cb ids b s)) =
         length (batches s) + (length ids - b + 9) div 10
   \<and> concat (batches (batch_loop analyze cb ids b s)) = concat (batches s) @ drop b ids"
proof (induction analyze cb ids b s rule: batch_loop.induct)
  case (1 analyze cb ids b s)
  show ?case
  proof (cases "b < length ids")
    case False
    then show ?thesis by (simp add: batch_loop.simps[of analyze cb ids b s])
  next
    case True
    define k where "k = min (b + batch_size) (length ids) - b"
    define bat where "bat = take k (drop b ids)"
    define s1 where "s1 = handle_results cb (length ids) (map analyze bat)
                   (s\<lparr>batches := batches s @ [bat]\<rparr>)"
    have unf: "batch_loop analyze cb ids b s = batch_loop analyze cb ids (b + batch_size) s1"
      using True by (simp add: batch_loop.simps[of analyze cb ids b s] Let_def s1_def bat_def k_def)
    have k: "k = min 10 (length ids - b)" "0 < k"
      using True by (auto simp: k_def batch_size_def)
    have lenbat: "length bat = k" using k by (simp add: bat_def)
    have split: "drop b ids = bat @ drop (b + batch_size) ids"
    proof -
      have "drop (b + batch_size) ids = drop k (drop b ids)"
        using True by (auto simp: k_def batch_size_def min_def add.commute)
      then show ?thesis
        unfolding bat_def by (metis append_take_drop_id)
    qed
    have rest: "length ids - (b + batch_size) = length ids - b - k"
      using True by (auto simp: k_def batch_size_def)
    note IH = "1.IH"[OF True refl refl refl, folded k_def bat_def, folded s1_def, folded s1_def]
    have s1f: "processed_count s1 = processed_count s + k"
      "progress s1 = progress s @ (if cb then map (\<lambda>i. (i, length ids))
            [Suc (processed_count s) ..< Suc (processed_count s + k)] else [])"
      "item_errors s1 = item_errors s @ raised (map analyze bat)"
      "free_dlcs s1 = free_dlcs s @ filter (\<lambda>d. \<not> has_depots d) (returned (map analyze bat))"
      "paid_dlcs s1 = paid_dlcs s @ filter has_depots (returned (map analyze bat))"
      "batches s1 = batches s @ [bat]"
      by (simp_all add: s1_def handle_results_effect lenbat)
    have c1: "processed_count s + k + (length ids - b - k) = processed_count s + (length ids - b)"
      using k by auto
    have upt: "[Suc (processed_count s) ..< Suc (processed_count s + k)] @
               [Suc (processed_count s + k) ..< Suc (processed_count s + (length ids - b))]
             = [Suc (processed_count s) ..< Suc (processed_count s + (length ids - b))]"
      using k by (intro upt_join) auto
    have cnt: "Suc (length (batches s)) + (length ids - b - k + 9) div 10
             = length (batches s) + (length ids - b + 9) div 10"
      using k True by (auto simp: min_def split: if_splits)
    let ?r = "batch_loop analyze cb ids (b + batch_size) s1"
    let ?pc = "processed_count s"
    have e1: "processed_count s1 + (length ids - (b + batch_size)) = ?pc + (length ids - b)"
      using s1f(1) rest c1 by simp
    have p1: "processed_count ?r = ?pc + (length ids - b)"
      using IH e1 by simp
    have p2: "progress ?r = progress s @ (if cb then map (\<lambda>i. (i, length ids))
            [Suc ?pc ..< Suc (?pc + (length ids - b))] else [])"
    proof (cases cb)
      case False
      then show ?thesis using IH s1f(2) by simp
    next
      case True
      have "progress ?r = progress s1 @ map (\<lambda>i. (i, length ids))
          [Suc (processed_count s1) ..< Suc (processed_count s1 + (length ids - (b + batch_size)))]"
        using IH True by simp
      also have "\<dots> = progress s @ map (\<lambda>i. (i, length ids))
          ([Suc ?pc ..< Suc (?pc + k)] @ [Suc (?pc + k) ..< Suc (?pc + (length ids - b))])"
        unfolding e1 using s1f(1,2) True by (simp del: upt_Suc)
      finally show ?thesis unfolding upt using True by simp
    qed
    have ih3: "item_errors ?r = item_errors s1 @ raised (map analyze (drop (b + batch_size) ids))"
      and ih4: "free_dlcs ?r = free_dlcs s1 @
          filter (\<lambda>d. \<not> has_depots d) (returned (map analyze (drop (b + batch_size) ids)))"
      and ih5: "paid_dlcs ?r = paid_dlcs s1 @
          filter has_depots (returned (map analyze (drop (b + batch_size) ids)))"
      and ih6: "length (batches ?r) =
          length (batches s1) + (length ids - (b + batch_size) + 9) div 10"
      and ih7: "concat (batches ?r) = concat (batches s1) @ drop (b + batch_size) ids"
      using IH by blast+
    have m: "map analyze (drop b ids) = map analyze bat @ map analyze (drop (b + batch_size) ids)"
      by (subst split) simp
    have p3: "item_errors ?r = item_errors s @ raised (map analyze (drop b ids))"
      unfolding ih3 s1f(3) m raised_append by simp
    have p4: "free_dlcs ?r = free_dlcs s @
        filter (\<lambda>d. \<not> has_depots d) (returned (map analyze (drop b ids)))"
      unfolding ih4 s1f(4) m returned_append by simp
    have p5: "paid_dlcs ?r = paid_dlcs s @ filter has_depots (returned (map analyze (drop b ids)))"
      unfolding ih5 s1f(5) m returned_append by simp
    have p6: "length (batches ?r) = length (batches s) + (length ids - b + 9) div 10"
      unfolding ih6 s1f(6) rest using cnt by simp
    have p7: "concat (batches ?r) = concat (batches s) @ drop b ids"
      unfolding ih7 s1f(6) using split by simp
    show ?thesis
      unfolding unf using p1 p2 p3 p4 p5 p6 p7 by blast
  qed
qed

lemma handle_results_batches: "batches (handle_results cb n rs s) = batches s"
  by (simp add: handle_results_effect)

lemma batch_loop_sizes:
  "list_all (\<lambda>bat. length bat \<le> batch_size) (batches s) \<Longrightarrow>
   list_all (\<lambda>bat. length bat \<le> batch_size) (batches (batch_loop analyze cb ids b s))"
proof (induction analyze cb ids b s rule: batch_loop.induct)
  case (1 analyze cb ids b s)
  show ?case
  proof (cases "b < length ids")
    case False
    then show ?thesis using "1.prems" by (simp add: batch_loop.simps[of analyze cb ids b s])
  next
    case True
    show ?thesis
      unfolding batch_loop.simps[of analyze cb ids b s] Let_def
      using True "1.prems"
      by (auto intro!: "1.IH"[OF True refl refl refl refl] simp: handle_results_batches)
  qed
qed

text \<open>
  Claim C5. With a progress callback, classifying \<open>N\<close> candidate ids calls the callback
  exactly \<open>N\<close> times, with \<open>current\<close> running through \<open>1, 2, ..., N\<close> and \<open>total\<close> always
  \<open>N\<close>, whether the item's fetch returned or raised. The ids are gathered in
  \<open>ceil(N / 10)\<close> consecutive batches of at most 10. An item whose fetch raised is logged
  and left out; every other item of the batch is classified as free or paid.
\<close>

theorem get_game_dlcs_progress:
  "progress (snd (get_game_dlcs analyze main_name True all_dlc_ids)) =
       map (\<lambda>i. (i, length all_dlc_ids)) [1 ..< Suc (length all_dlc_ids)]
   \<and> length (batches (snd (get_game_dlcs analyze main_name True all_dlc_ids))) =
       (length all_dlc_ids + 9) div 10
   \<and> concat (batches (snd (get_game_dlcs analyze main_name True all_dlc_ids))) = all_dlc_ids
   \<and> list_all (\<lambda>bat. length bat \<le> batch_size)
        (batches (snd (get_game_dlcs analyze main_name True all_dlc_ids)))
   \<and> item_errors (snd (get_game_dlcs analyze main_name True all_dlc_ids)) =
       raised (map analyze all_dlc_ids)
   \<and> free (fst (get_game_dlcs analyze main_name True all_dlc_ids)) =
       filter (\<lambda>d. \<not> has_depots d) (returned (map analyze all_dlc_ids))
   \<and> paid (fst (get_game_dlcs analyze main_name True all_dlc_ids)) =
       filter has_depots (returned (map analyze all_dlc_ids))"
proof (cases "all_dlc_ids = []")
  case True
  then show ?thesis by (simp add: get_game_dlcs_def empty_scan_def)
next
  case False
  have sz: "list_all (\<lambda>bat. length bat \<le> batch_size)
      (batches (batch_loop analyze True all_dlc_ids 0 empty_scan))"
    by (rule batch_loop_sizes) (simp add: empty_scan_def)
  show ?thesis
    using False sz batch_loop_fields[of analyze True all_dlc_ids 0 empty_scan]
    by (simp add: get_game_dlcs_def Let_def empty_scan_def del: upt_Suc)
qed

text \<open>For 23 candidates there are 3 batches and 23 progress calls.\<close>

theorem get_game_dlcs_progress_witness:
  "length (batches (snd (get_game_dlcs ex_analyze ''Game'' True ex_ids))) = 3
   \<and> progress (snd (get_game_dlcs ex_analyze ''Game'' True ex_ids)) = map (\<lambda>i. (i, 23)) [1 ..< 24]
   \<and> item_errors (snd (get_game_dlcs ex_analyze ''Game'' True ex_ids)) = [ValueError ''download'']"
proof -
  have len: "length ex_ids = 23"
    by (simp add: ex_ids_def)
  have err: "raised (map ex_analyze ex_ids) = [ValueError ''download'']"
    by (simp add: ex_ids_def ex_analyze_def)
  have n: "(23 + 9) div 10 = (3::nat)" "Suc 23 = 24"
    by simp_all
  show ?thesis
    using get_game_dlcs_progress[of ex_analyze "''Game''" ex_ids]
    unfolding len err n by blast
qed

section \<open>Properties of the search in all repositories\<close>













section \<open>Properties of the region check\<close>

lemma try_urls_tried: "set (snd (try_urls http_get path urls tried)) \<subseteq> set tried \<union> set urls"
proof (induction urls arbitrary: tried)
  case Nil
  then show ?case by simp
next
  case (Cons url urls)
  have step: "set (snd (try_urls http_get path urls (tried @ [url])))
      \<subseteq> set tried \<union> set (url # urls)"
    using Cons.IH[of "tried @ [url]"] by auto
  show ?case
  proof (cases "http_get url")
    case (Raises e)
    then show ?thesis using step by simp
  next
    case (Returns r)
    then show ?thesis using step by (cases r) auto
  qed
qed

lemma official_not_cn: "official_url sha path repo \<notin> set (cn_urls sha path repo)"
  by (simp add: official_url_def cn_urls_def)

lemma try_urls_single:
  "snd (try_urls http_get path [url] []) = [url]"
  by (auto split: outcome.splits)

text \<open>
  Claim C10, amended. When the region request raises (a network error, a body that is not
  JSON), \<open>checkcn\<close> sets \<open>IS_CN\<close> to \<open>yes\<close>, and a fetch made with that environment tries
  only the two mirror URLs; the same default applies to every reply that is not a JSON
  object. For a reply that is a JSON object, \<open>IS_CN\<close> becomes \<open>yes\<close> when its \<open>flag\<close> is
  true and \<open>no\<close> when \<open>flag\<close> is absent or has a false value. A fetch made while \<open>IS_CN\<close>
  is \<open>yes\<close> tries only the two mirror URLs and never the official one; a fetch made while
  \<open>IS_CN\<close> has any other value, or none because no region check has run, tries the
  official URL and nothing else.
\<close>

theorem region_check_default_cn:
  "fst (checkcn (Raises e) env) ''IS_CN'' = Some ''yes''
   \<and> set (snd (get_from_url http_get (fst (checkcn (Raises e) env)) sha path repo))
        \<subseteq> set (cn_urls sha path repo)
   \<and> ((\<forall>kvs. reply \<noteq> Returns (JObj kvs)) \<longrightarrow>
        checkcn reply env = (env(''IS_CN'' \<mapsto> ''yes''), RegionCheckFailed))
   \<and> fst (checkcn (Returns (JObj kvs)) env) ''IS_CN'' =
        Some (if truthy (json_get kvs ''flag'') then ''yes'' else ''no'')
   \<and> (env' ''IS_CN'' = Some ''yes'' \<longrightarrow>
        set (snd (get_from_url http_get env' sha path repo)) \<subseteq> set (cn_urls sha path repo)
        \<and> official_url sha path repo \<notin> set (snd (get_from_url http_get env' sha path repo)))
   \<and> (env' ''IS_CN'' \<noteq> Some ''yes'' \<longrightarrow>
        snd (get_from_url http_get env' sha path repo) = [official_url sha path repo])"
proof -
  have a: "fst (checkcn (Raises e) env) ''IS_CN'' = Some ''yes''"
    by (simp add: checkcn_def)
  have cn: "set (snd (get_from_url http_get env1 sha path repo)) \<subseteq> set (cn_urls sha path repo)"
    if "env1 ''IS_CN'' = Some ''yes''" for env1
    unfolding get_from_url_def mirror_urls_def
    using that try_urls_tried[of http_get path "cn_urls sha path repo" "[]"] by simp
  have b: "(\<forall>kvs. reply \<noteq> Returns (JObj kvs)) \<longrightarrow>
        checkcn reply env = (env(''IS_CN'' \<mapsto> ''yes''), RegionCheckFailed)"
    by (auto simp: checkcn_def split: outcome.splits json.splits)
  have c: "fst (checkcn (Returns (JObj kvs)) env) ''IS_CN'' =
        Some (if truthy (json_get kvs ''flag'') then ''yes'' else ''no'')"
    by (simp add: checkcn_def)
  have d: "official_url sha path repo \<notin> set (snd (get_from_url http_get env' sha path repo))"
    if "env' ''IS_CN'' = Some ''yes''"
    using cn[of env'] that official_not_cn by blast
  have f: "snd (get_from_url http_get env' sha path repo) = [official_url sha path repo]"
    if "env' ''IS_CN'' \<noteq> Some ''yes''"
    using that try_urls_single[of http_get path "official_url sha path repo"]
    by (simp add: get_from_url_def mirror_urls_def del: try_urls.simps)
  have a2: "set (snd (get_from_url http_get (fst (checkcn (Raises e) env)) sha path repo))
        \<subseteq> set (cn_urls sha path repo)"
    using cn[of "fst (checkcn (Raises e) env)"] a by blast
  show ?thesis using a a2 b c cn[of env'] d f by blast
qed

text \<open>
  A reply that is a list counts as a failed check; with \<open>IS_CN\<close> set to \<open>yes\<close> the first
  mirror is requested; a reply with a false flag leads to the official URL.
\<close>

theorem region_check_default_cn_witness:
  "fst (checkcn (Returns (JList [])) Map.empty) ''IS_CN'' = Some ''yes''
   \<and> snd (get_from_url ex_http_get ex_env_cn ''abc'' ''key.vdf'' ''o/r'') =
       [''https://cdn.jsdmirror.com/gh/o/r@abc/key.vdf'']
   \<and> snd (get_from_url ex_http_get (fst (checkcn (Returns (JObj [(''flag'', JBool False), (''country'', JStr ''US'')])) Map.empty))
        ''abc'' ''key.vdf'' ''o/r'') =
       [''https://raw.githubusercontent.com/o/r/abc/key.vdf'']"
  using region_check_default_cn
    [where reply = "Returns (JList [])" and env = Map.empty and e = HTTPError
       and kvs = "[(''flag'', JBool False), (''country'', JStr ''US'')]"
       and env' = ex_env_cn and http_get = ex_http_get
       and sha = "''abc''" and path = "''key.vdf''" and repo = "''o/r''"]
    region_check_default_cn
    [where reply = "Returns (JList [])" and env = Map.empty and e = HTTPError
       and kvs = "[(''flag'', JBool False), (''country'', JStr ''US'')]"
       and env' = "fst (checkcn (Returns (JObj [(''flag'', JBool False), (''country'', JStr ''US'')])) Map.empty)"
       and http_get = ex_http_get
       and sha = "''abc''" and path = "''key.vdf''" and repo = "''o/r''"]
  by (simp add: get_from_url_def mirror_urls_def checkcn_def json_get_def cn_urls_def
      official_url_def ex_http_get_def ex_env_cn_def)

text \<open>
  The claim as stated fails: the official host is used without any report of a location
  outside mainland China. The empty object as reply has neither a flag nor a country, and
  \<open>checkcn\<close> sets \<open>IS_CN\<close> to \<open>no\<close>; and when no region check has run, \<open>IS_CN\<close> is unset and
  the fetch goes to the official host as well.
\<close>

theorem region_check_official_without_report_counterexample:
  "checkcn (Returns (JObj [])) Map.empty = (Map.empty(''IS_CN'' \<mapsto> ''no''), NonCnDetected JNull)
   \<and> snd (get_from_url ex_http_get (fst (checkcn (Returns (JObj [])) Map.empty))
        ''abc'' ''key.vdf'' ''o/r'') = [''https://raw.githubusercontent.com/o/r/abc/key.vdf'']
   \<and> snd (get_from_url ex_http_get Map.empty ''abc'' ''key.vdf'' ''o/r'')
        = [''https://raw.githubusercontent.com/o/r/abc/key.vdf'']"
  by (simp add: get_from_url_def mirror_urls_def checkcn_def json_get_def official_url_def
      ex_http_get_def)

section \<open>Properties of the depot key merge\<close>

lemma k_Valve_neq [simp]: "k_Valve \<noteq> k_valve" "k_valve \<noteq> k_Valve"
  by (simp_all add: k_Valve_def k_valve_def)

lemma map_of_dict_set: "map_of (dict_set k v d) k' = (if k' = k then Some v else map_of d k')"
  by (induction d) auto

lemma dict_set_same: "map_of d k = Some v \<Longrightarrow> dict_set k v d = d"
  by (induction d) (auto split: if_splits)

lemma dict_set_twice: "dict_set k v (dict_set k v' d) = dict_set k v d"
  by (induction d) auto

lemma dict_set_commute:
  "k \<noteq> k' \<Longrightarrow> map_of d k \<noteq> None \<Longrightarrow>
   dict_set k v (dict_set k' v' d) = dict_set k' v' (dict_set k v d)"
  by (induction d) (auto split: if_splits)

lemma dict_update_Cons: "dict_update d ((k, v) # e) = dict_update (dict_set k v d) e"
  by (simp add: dict_update_def)

lemma dict_update_Nil: "dict_update d [] = d"
  by (simp add: dict_update_def)

lemma map_of_dict_update:
  "map_of (dict_update d e) k = (case map_of (rev e) k of None \<Rightarrow> map_of d k | Some v \<Rightarrow> Some v)"
proof (induction e arbitrary: d)
  case Nil
  then show ?case by (simp add: dict_update_Nil)
next
  case (Cons a e)
  obtain k' v' where a: "a = (k', v')" by (cases a)
  show ?case
    unfolding a dict_update_Cons Cons.IH
    by (auto simp: map_of_dict_set map_of_append split: option.splits)
qed

lemma dict_update_absorb:
  "map_of (rev e) k \<noteq> None \<Longrightarrow> map_of d k \<noteq> None \<Longrightarrow>
   dict_update (dict_set k v d) e = dict_update d e"
proof (induction e arbitrary: d)
  case Nil
  then show ?case by simp
next
  case (Cons a e)
  obtain k' v' where a: "a = (k', v')" by (cases a)
  show ?case
  proof (cases "k' = k")
    case True
    then show ?thesis by (simp add: a dict_update_Cons dict_set_twice)
  next
    case False
    then have ke: "map_of (rev e) k \<noteq> None"
      using Cons.prems(1) a by (auto simp: map_of_append split: option.splits)
    have kd: "map_of (dict_set k' v' d) k \<noteq> None"
      using Cons.prems(2) by (simp add: map_of_dict_set)
    have "dict_update (dict_set k v d) (a # e) = dict_update (dict_set k' v' (dict_set k v d)) e"
      by (simp add: a dict_update_Cons)
    also have "dict_set k' v' (dict_set k v d) = dict_set k v (dict_set k' v' d)"
      by (rule dict_set_commute[symmetric]) (use False Cons.prems(2) in auto)
    also have "dict_update (dict_set k v (dict_set k' v' d)) e = dict_update (dict_set k' v' d) e"
      by (rule Cons.IH[OF ke kd])
    finally show ?thesis by (simp add: a dict_update_Cons)
  qed
qed

lemma dict_update_idem: "dict_update (dict_update d e) e = dict_update d e"
proof (induction e arbitrary: d)
  case Nil
  then show ?case by (simp add: dict_update_Nil)
next
  case (Cons a e)
  obtain k v where a: "a = (k, v)" by (cases a)
  let ?d1 = "dict_update (dict_set k v d) e"
  have kd1: "map_of ?d1 k \<noteq> None"
    by (simp add: map_of_dict_update map_of_dict_set split: option.splits)
  show ?case
  proof (cases "map_of (rev e) k = None")
    case False
    have "dict_update ?d1 (a # e) = dict_update (dict_set k v ?d1) e"
      by (simp add: a dict_update_Cons)
    also have "\<dots> = dict_update ?d1 e" by (rule dict_update_absorb[OF False kd1])
    also have "\<dots> = ?d1" by (rule Cons.IH)
    finally show ?thesis by (simp add: a dict_update_Cons)
  next
    case True
    have "map_of ?d1 k = Some v"
      by (simp add: map_of_dict_update True map_of_dict_set)
    then have "dict_set k v ?d1 = ?d1" by (rule dict_set_same)
    then have "dict_update ?d1 (a # e) = dict_update ?d1 e"
      by (simp add: a dict_update_Cons)
    also have "\<dots> = ?d1" by (rule Cons.IH)
    finally show ?thesis by (simp add: a dict_update_Cons)
  qed
qed

lemma find_steam_found:
  assumes "find_steam config = Returns (Some (key, steam))"
  obtains ics software where
    "map_of config k_ics = Some (VDict ics)"
    "map_of ics k_software = Some (VDict software)"
    "map_of software key = Some steam"
    "key = k_Valve \<and> vdf_truthy steam \<or>
     key = k_valve \<and> \<not> (case map_of software k_Valve of None \<Rightarrow> False | Some v \<Rightarrow> vdf_truthy v)"
proof -
  from assms obtain icsv where 1: "get_or_empty (VDict config) k_ics = Returns icsv"
    by (auto simp: find_steam_def split: outcome.splits)
  from assms 1 obtain swv where 2: "get_or_empty icsv k_software = Returns swv"
    by (auto simp: find_steam_def split: outcome.splits)
  from assms 1 2 obtain upper where 3: "get_or_none swv k_Valve = Returns upper"
    by (auto simp: find_steam_def split: outcome.splits)
  from 3 obtain software where sw: "swv = VDict software" by (cases swv) auto
  have sw_ne: "software \<noteq> []" using assms 1 2 3 sw
    by (auto simp: find_steam_def split: outcome.splits if_splits option.splits)
  from 2 sw obtain ics where ics: "icsv = VDict ics" by (cases icsv) auto
  have 4: "map_of ics k_software = Some (VDict software)"
    using 2 ics sw sw_ne by (auto split: option.splits)
  have 5: "map_of config k_ics = Some (VDict ics)"
    using 1 ics 4 by (auto split: option.splits)
  have 6: "map_of software key = Some steam \<and> (key = k_Valve \<and> vdf_truthy steam \<or>
     key = k_valve \<and> \<not> (case map_of software k_Valve of None \<Rightarrow> False | Some v \<Rightarrow> vdf_truthy v))"
    using assms 1 2 3 sw
    by (auto simp: find_steam_def split: outcome.splits if_splits option.splits)
  show ?thesis using that[OF 5 4] 6 by blast
qed

lemma find_steam_put:
  assumes "map_of config k_ics = Some (VDict ics)"
    "map_of ics k_software = Some (VDict software)"
    "key = k_Valve \<or>
     key = k_valve \<and> \<not> (case map_of software k_Valve of None \<Rightarrow> False | Some v \<Rightarrow> vdf_truthy v)"
    "vdf_truthy steam'"
  shows "find_steam (put_steam config key steam') = Returns (Some (key, steam'))"
  using assms
  by (auto simp: find_steam_def put_steam_def map_of_dict_set split: option.splits)

lemma put_steam_twice:
  assumes "map_of config k_ics = Some (VDict ics)"
    "map_of ics k_software = Some (VDict software)"
  shows "put_steam (put_steam config key steam') key steam' = put_steam config key steam'"
  using assms by (simp add: put_steam_def map_of_dict_set dict_set_twice)

lemma merge_depots_idem:
  assumes "merge_depots steam depots_config = Returns steam'"
  shows "merge_depots steam' depots_config = Returns steam'" and "vdf_truthy steam'"
proof -
  from assms obtain sec where steam: "steam = VDict sec"
    by (cases steam) (auto simp: merge_depots_def)
  let ?sec1 = "setdefault_depots sec"
  let ?arg = "case map_of depots_config k_depots of None \<Rightarrow> VDict [] | Some v \<Rightarrow> v"
  from assms obtain depots where dep: "map_of ?sec1 k_depots = Some (VDict depots)"
    by (auto simp: merge_depots_def steam Let_def split: option.splits vdf.splits)
  have ne: "?sec1 \<noteq> []" using dep by auto
  have sd: "setdefault_depots ?sec1 = ?sec1"
    using dep by (simp add: setdefault_depots_def[of ?sec1])
  show "merge_depots steam' depots_config = Returns steam'"
  proof (cases ?arg)
    case (VStr s)
    then have s': "steam' = VDict ?sec1" and "s = []"
      using assms dep by (auto simp: merge_depots_def steam Let_def split: if_splits)
    then show ?thesis
      using dep VStr sd by (simp add: merge_depots_def Let_def)
  next
    case (VDict other)
    let ?new = "VDict (dict_update depots other)"
    let ?sec2 = "dict_set k_depots ?new ?sec1"
    have s': "steam' = VDict ?sec2"
      using assms dep VDict by (auto simp: merge_depots_def steam Let_def)
    have m: "map_of ?sec2 k_depots = Some ?new"
      by (simp add: map_of_dict_set)
    have sd2: "setdefault_depots ?sec2 = ?sec2"
      using m by (simp add: setdefault_depots_def[of ?sec2])
    show ?thesis
      unfolding s' merge_depots_def using VDict m sd2
      by (simp add: Let_def dict_update_idem dict_set_twice)
  qed
  show "vdf_truthy steam'"
  proof (cases ?arg)
    case (VStr s)
    then have "steam' = VDict ?sec1"
      using assms dep by (auto simp: merge_depots_def steam Let_def split: if_splits)
    then show ?thesis using ne by simp
  next
    case (VDict other)
    then have "steam' = VDict (dict_set k_depots (VDict (dict_update depots other)) ?sec1)"
      using assms dep by (auto simp: merge_depots_def steam Let_def)
    moreover have "dict_set k v d \<noteq> []" for k v and d :: pydict
      by (cases d) (auto split: if_splits)
    ultimately show ?thesis by simp
  qed
qed

lemma merged_config_idem:
  assumes "merged_config config depots_config = Returns (Some c1)"
  shows "merged_config c1 depots_config = Returns (Some c1)"
proof -
  from assms obtain key steam where fs: "find_steam config = Returns (Some (key, steam))"
    by (auto simp: merged_config_def split: outcome.splits option.splits)
  from assms fs obtain steam' where md: "merge_depots steam depots_config = Returns steam'"
    and c1: "c1 = put_steam config key steam'" and tr: "vdf_truthy steam"
    by (auto simp: merged_config_def split: outcome.splits if_splits)
  from fs obtain ics software where path:
    "map_of config k_ics = Some (VDict ics)"
    "map_of ics k_software = Some (VDict software)"
    "map_of software key = Some steam"
    "key = k_Valve \<and> vdf_truthy steam \<or>
     key = k_valve \<and> \<not> (case map_of software k_Valve of None \<Rightarrow> False | Some v \<Rightarrow> vdf_truthy v)"
    by (rule find_steam_found)
  have k: "key = k_Valve \<or>
     key = k_valve \<and> \<not> (case map_of software k_Valve of None \<Rightarrow> False | Some v \<Rightarrow> vdf_truthy v)"
    using path(4) by blast
  have fs1: "find_steam c1 = Returns (Some (key, steam'))"
    unfolding c1 by (rule find_steam_put[OF path(1,2) k merge_depots_idem(2)[OF md]])
  show ?thesis
    unfolding merged_config_def fs1
    using merge_depots_idem[OF md] put_steam_twice[OF path(1,2)]
    by (simp add: c1)
qed

lemma depotkey_merge_failed_untouched:
  "\<not> merge_ok (depotkey_merge vdf_loads vdf_dumps config_file depots_config) \<Longrightarrow>
   merge_file (depotkey_merge vdf_loads vdf_dumps config_file depots_config) = config_file"
  by (auto simp: depotkey_merge_def split: option.splits outcome.splits)

text \<open>
  Claim C7. Merging the same depot keys twice is idempotent: after the second merge the
  file content is what the first merge left. The \<open>vdf\<close> library is assumed to read back
  what it wrote for the configuration the first merge writes.
\<close>

theorem depotkey_merge_idempotent:
  assumes roundtrip: "\<And>text config c1. config_file = Some text \<Longrightarrow>
      vdf_loads text = Returns config \<Longrightarrow>
      merged_config config depots_config = Returns (Some c1) \<Longrightarrow>
      vdf_loads (vdf_dumps c1) = Returns c1"
  shows "merge_file (depotkey_merge vdf_loads vdf_dumps
            (merge_file (depotkey_merge vdf_loads vdf_dumps config_file depots_config))
            depots_config)
         = merge_file (depotkey_merge vdf_loads vdf_dumps config_file depots_config)"
proof (cases "merge_ok (depotkey_merge vdf_loads vdf_dumps config_file depots_config)")
  case False
  then have "merge_file (depotkey_merge vdf_loads vdf_dumps config_file depots_config) = config_file"
    by (rule depotkey_merge_failed_untouched)
  then show ?thesis by simp
next
  case True
  then obtain cur config c1 where f: "config_file = Some cur"
    and l: "vdf_loads cur = Returns config"
    and m: "merged_config config depots_config = Returns (Some c1)"
    by (auto simp: depotkey_merge_def split: option.splits outcome.splits)
  have first: "merge_file (depotkey_merge vdf_loads vdf_dumps config_file depots_config)
      = Some (vdf_dumps c1)"
    using f l m by (simp add: depotkey_merge_def)
  have rt: "vdf_loads (vdf_dumps c1) = Returns c1"
    by (rule roundtrip[OF f l m])
  show ?thesis
    unfolding first
    using rt merged_config_idem[OF m] by (simp add: depotkey_merge_def)
qed

lemma not_comparable4:
  assumes "\<not> comparable p [a, b, c, d]"
  shows "(\<exists>k r. p = k # r \<and> k \<noteq> a) \<or> (\<exists>k r. p = a # k # r \<and> k \<noteq> b)
       \<or> (\<exists>k r. p = a # b # k # r \<and> k \<noteq> c) \<or> (\<exists>k r. p = a # b # c # k # r \<and> k \<noteq> d)"
proof (cases p)
  case Nil
  then show ?thesis using assms by (simp add: comparable_def)
next
  case p0: (Cons k0 r0)
  show ?thesis
  proof (cases r0)
    case Nil
    then show ?thesis using assms p0 by (auto simp: comparable_def)
  next
    case p1: (Cons k1 r1)
    show ?thesis
    proof (cases r1)
      case Nil
      then show ?thesis using assms p0 p1 by (auto simp: comparable_def)
    next
      case p2: (Cons k2 r2)
      show ?thesis
      proof (cases r2)
        case Nil
        then show ?thesis using assms p0 p1 p2 by (auto simp: comparable_def)
      next
        case p3: (Cons k3 r3)
        show ?thesis using assms p0 p1 p2 p3 by (auto simp: comparable_def)
      qed
    qed
  qed
qed

lemma vdf_path_dict_set:
  "vdf_path (VDict (dict_set k v d)) (k' # ks) =
     (if k' = k then vdf_path v ks else vdf_path (VDict d) (k' # ks))"
  by (simp add: map_of_dict_set)

lemma put_steam_frame:
  assumes ics: "map_of config k_ics = Some (VDict ics)"
    and sw: "map_of ics k_software = Some (VDict software)"
    and st: "map_of software key = Some (VDict sec)"
    and same: "\<And>k. k \<noteq> k_depots \<Longrightarrow> map_of sec' k = map_of sec k"
    and nc: "\<not> comparable p (depots_path key)"
  shows "vdf_path (VDict (put_steam config key (VDict sec'))) p = vdf_path (VDict config) p"
proof -
  have put: "put_steam config key (VDict sec') =
      dict_set k_ics
        (VDict (dict_set k_software (VDict (dict_set key (VDict sec') software)) ics)) config"
    using ics sw by (simp add: put_steam_def)
  from not_comparable4[OF nc[unfolded depots_path_def]] show ?thesis
  proof (elim disjE exE conjE)
    fix k r assume "p = k # r" "k \<noteq> k_ics"
    then show ?thesis unfolding put by (simp add: map_of_dict_set)
  next
    fix k r assume "p = k_ics # k # r" "k \<noteq> k_software"
    then show ?thesis unfolding put using ics by (simp add: map_of_dict_set)
  next
    fix k r assume "p = k_ics # k_software # k # r" "k \<noteq> key"
    then show ?thesis unfolding put using ics sw by (simp add: map_of_dict_set)
  next
    fix k r assume d: "p = k_ics # k_software # key # k # r" "k \<noteq> k_depots"
    then show ?thesis unfolding put using ics sw st same[OF d(2)] by (simp add: map_of_dict_set)
  qed
qed

lemma put_steam_depots:
  assumes ics: "map_of config k_ics = Some (VDict ics)"
    and sw: "map_of ics k_software = Some (VDict software)"
  shows "vdf_path (VDict (put_steam config key (VDict sec'))) (depots_path key @ ks) =
         (case map_of sec' k_depots of None \<Rightarrow> None | Some v \<Rightarrow> vdf_path v ks)"
  using ics sw by (simp add: put_steam_def depots_path_def map_of_dict_set)

lemma map_of_setdefault:
  "k \<noteq> k_depots \<Longrightarrow> map_of (setdefault_depots sec) k = map_of sec k"
  by (auto simp: setdefault_depots_def map_add_def split: option.splits)

lemma section_at_Some:
  assumes "section_at config key = Some v"
  obtains ics software where "map_of config k_ics = Some (VDict ics)"
    "map_of ics k_software = Some (VDict software)" "map_of software key = Some v"
proof -
  from assms obtain a where a: "map_of config k_ics = Some a" "vdf_path a [k_software, key] = Some v"
    by (auto simp: section_at_def split: option.splits)
  from a(2) obtain ics where ics: "a = VDict ics" by (cases a) auto
  from a(2) ics obtain b where b: "map_of ics k_software = Some b" "vdf_path b [key] = Some v"
    by (auto split: option.splits)
  from b(2) obtain software where sw: "b = VDict software" by (cases b) auto
  from b(2) sw have "map_of software key = Some v" by (auto split: option.splits)
  then show ?thesis using that a(1) ics b(1) sw by simp
qed

lemma section_at_eq:
  assumes "map_of config k_ics = Some (VDict ics)" "map_of ics k_software = Some (VDict software)"
  shows "section_at config key = map_of software key"
  using assms by (simp add: section_at_def split: option.splits)

lemma chosen_section_found:
  assumes "chosen_section config key sec"
  shows "find_steam config = Returns (Some (key, VDict sec))"
proof -
  from assms have ne: "sec \<noteq> []" and sa: "section_at config key = Some (VDict sec)"
    by (auto simp: chosen_section_def)
  from sa obtain ics software where path: "map_of config k_ics = Some (VDict ics)"
    "map_of ics k_software = Some (VDict software)" "map_of software key = Some (VDict sec)"
    by (rule section_at_Some)
  have up: "section_at config k_Valve = map_of software k_Valve"
    by (rule section_at_eq[OF path(1,2)])
  show ?thesis
    using assms path ne unfolding chosen_section_def up find_steam_def
    by (auto split: option.splits)
qed

lemma sections_empty_not_merged:
  assumes "case section_at config k_Valve of None \<Rightarrow> True | Some v \<Rightarrow> \<not> vdf_truthy v"
    and "case section_at config k_valve of None \<Rightarrow> True | Some v \<Rightarrow> \<not> vdf_truthy v"
  shows "merged_config config depots_config \<noteq> Returns (Some c')"
proof
  assume m: "merged_config config depots_config = Returns (Some c')"
  then obtain key steam where fs: "find_steam config = Returns (Some (key, steam))"
    and tr: "vdf_truthy steam"
    by (auto simp: merged_config_def split: outcome.splits option.splits if_splits)
  from fs obtain ics software where path:
    "map_of config k_ics = Some (VDict ics)"
    "map_of ics k_software = Some (VDict software)"
    "map_of software key = Some steam"
    "key = k_Valve \<and> vdf_truthy steam \<or>
     key = k_valve \<and> \<not> (case map_of software k_Valve of None \<Rightarrow> False | Some v \<Rightarrow> vdf_truthy v)"
    by (rule find_steam_found)
  have "section_at config key = Some steam"
    using section_at_eq[OF path(1,2)] path(3) by simp
  then show False using assms path(4) tr by auto
qed

lemma dict_update_keeps:
  "map_of other depot_id = None \<Longrightarrow> map_of (dict_update depots other) depot_id = map_of depots depot_id"
proof -
  assume "map_of other depot_id = None"
  then have "map_of (rev other) depot_id = None"
    by (simp add: map_of_eq_None_iff)
  then show ?thesis by (simp add: map_of_dict_update)
qed

lemma chosen_section_merged:
  assumes ch: "chosen_section config key sec"
    and od: "old_depots sec depots"
    and dc: "map_of depots_config k_depots = Some (VDict other)"
  shows "\<exists>c'. merged_config config depots_config = Returns (Some c')
     \<and> vdf_path (VDict c') (depots_path key) = Some (VDict (dict_update depots other))
     \<and> (\<forall>p. \<not> comparable p (depots_path key) \<longrightarrow>
            vdf_path (VDict c') p = vdf_path (VDict config) p)"
proof -
  let ?new = "VDict (dict_update depots other)"
  let ?sec2 = "dict_set k_depots ?new (setdefault_depots sec)"
  let ?c = "put_steam config key (VDict ?sec2)"
  from ch have ne: "sec \<noteq> []" and sa: "section_at config key = Some (VDict sec)"
    by (auto simp: chosen_section_def)
  from sa obtain ics software where path: "map_of config k_ics = Some (VDict ics)"
    "map_of ics k_software = Some (VDict software)" "map_of software key = Some (VDict sec)"
    by (rule section_at_Some)
  have sd: "map_of (setdefault_depots sec) k_depots = Some (VDict depots)"
    using od by (auto simp: old_depots_def setdefault_depots_def map_add_def split: option.splits)
  have md: "merge_depots (VDict sec) depots_config = Returns (VDict ?sec2)"
    using sd dc by (simp add: merge_depots_def Let_def)
  have mc: "merged_config config depots_config = Returns (Some ?c)"
    using chosen_section_found[OF ch] md ne by (simp add: merged_config_def)
  have dp: "vdf_path (VDict ?c) (depots_path key) = Some ?new"
    using put_steam_depots[OF path(1,2), of key ?sec2 "[]"] by (simp add: map_of_dict_set)
  have same: "map_of ?sec2 k = map_of sec k" if "k \<noteq> k_depots" for k
    using that by (simp add: map_of_dict_set map_of_setdefault)
  have fr: "vdf_path (VDict ?c) p = vdf_path (VDict config) p"
    if "\<not> comparable p (depots_path key)" for p
    by (rule put_steam_frame[OF path same that])
  show ?thesis using mc dp fr by blast
qed

text \<open>
  Claim C3, amended. For every parsed configuration: if neither spelling of the parent
  section exists, \<open>depotkey_merge\<close> returns \<open>False\<close> and the file is unchanged; the same
  holds when each spelling is absent or has an empty value, so a parent section that
  exists but is empty is treated as missing. The merge works on the value under \<open>Valve\<close>
  when it is a non-empty section, and on the value under \<open>valve\<close> when that is a
  non-empty section and \<open>Valve\<close> is absent or has an empty value; when the \<open>depots\<close>
  entry of that section is absent or a section, the supplied mapping is merged into it:
  the function returns \<open>True\<close>, the file written holds a configuration whose \<open>depots\<close>
  map is the old one updated with the supplied one, depot entries whose ids are not
  supplied keep their values, and every path that does not lead into the \<open>depots\<close> map
  reads the same as before.
\<close>

theorem depotkey_merge_sections:
  assumes loads: "vdf_loads cur = Returns config"
  shows
   "(section_at config k_Valve = None \<and> section_at config k_valve = None \<longrightarrow>
       \<not> merge_ok (depotkey_merge vdf_loads vdf_dumps (Some cur) depots_config)
     \<and> merge_file (depotkey_merge vdf_loads vdf_dumps (Some cur) depots_config) = Some cur)
  \<and> ((case section_at config k_Valve of None \<Rightarrow> True | Some v \<Rightarrow> \<not> vdf_truthy v)
     \<and> (case section_at config k_valve of None \<Rightarrow> True | Some v \<Rightarrow> \<not> vdf_truthy v) \<longrightarrow>
       \<not> merge_ok (depotkey_merge vdf_loads vdf_dumps (Some cur) depots_config)
     \<and> merge_file (depotkey_merge vdf_loads vdf_dumps (Some cur) depots_config) = Some cur)
  \<and> (\<forall>key sec depots other.
        chosen_section config key sec \<and> old_depots sec depots
        \<and> map_of depots_config k_depots = Some (VDict other) \<longrightarrow>
        merge_ok (depotkey_merge vdf_loads vdf_dumps (Some cur) depots_config)
        \<and> (\<exists>c'. merge_file (depotkey_merge vdf_loads vdf_dumps (Some cur) depots_config)
                   = Some (vdf_dumps c')
              \<and> vdf_path (VDict c') (depots_path key) = Some (VDict (dict_update depots other))
              \<and> (\<forall>p. \<not> comparable p (depots_path key) \<longrightarrow>
                     vdf_path (VDict c') p = vdf_path (VDict config) p))
        \<and> (\<forall>depot_id. map_of other depot_id = None \<longrightarrow>
               map_of (dict_update depots other) depot_id = map_of depots depot_id))"
proof (intro conjI allI impI)
  assume "section_at config k_Valve = None \<and> section_at config k_valve = None"
  then have "\<And>c'. merged_config config depots_config \<noteq> Returns (Some c')"
    using sections_empty_not_merged[of config] by simp
  then show "\<not> merge_ok (depotkey_merge vdf_loads vdf_dumps (Some cur) depots_config)"
    and "merge_file (depotkey_merge vdf_loads vdf_dumps (Some cur) depots_config) = Some cur"
    using loads by (auto simp: depotkey_merge_def split: outcome.splits option.splits)
next
  assume "(case section_at config k_Valve of None \<Rightarrow> True | Some v \<Rightarrow> \<not> vdf_truthy v)
     \<and> (case section_at config k_valve of None \<Rightarrow> True | Some v \<Rightarrow> \<not> vdf_truthy v)"
  then have "\<And>c'. merged_config config depots_config \<noteq> Returns (Some c')"
    using sections_empty_not_merged[of config] by blast
  then show "\<not> merge_ok (depotkey_merge vdf_loads vdf_dumps (Some cur) depots_config)"
    and "merge_file (depotkey_merge vdf_loads vdf_dumps (Some cur) depots_config) = Some cur"
    using loads by (auto simp: depotkey_merge_def split: outcome.splits option.splits)
next
  fix key sec depots other
  assume h: "chosen_section config key sec \<and> old_depots sec depots
        \<and> map_of depots_config k_depots = Some (VDict other)"
  then obtain c' where c': "merged_config config depots_config = Returns (Some c')"
    "vdf_path (VDict c') (depots_path key) = Some (VDict (dict_update depots other))"
    "\<forall>p. \<not> comparable p (depots_path key) \<longrightarrow> vdf_path (VDict c') p = vdf_path (VDict config) p"
    using chosen_section_merged[of config key sec depots depots_config other] by blast
  have r: "depotkey_merge vdf_loads vdf_dumps (Some cur) depots_config =
      \<lparr>merge_ok = True, merge_file = Some (vdf_dumps c'), merge_log = MergeDone\<rparr>"
    using loads c'(1) by (simp add: depotkey_merge_def)
  show "merge_ok (depotkey_merge vdf_loads vdf_dumps (Some cur) depots_config)"
    by (simp add: r)
  show "\<exists>c'. merge_file (depotkey_merge vdf_loads vdf_dumps (Some cur) depots_config)
                   = Some (vdf_dumps c')
              \<and> vdf_path (VDict c') (depots_path key) = Some (VDict (dict_update depots other))
              \<and> (\<forall>p. \<not> comparable p (depots_path key) \<longrightarrow>
                     vdf_path (VDict c') p = vdf_path (VDict config) p)"
    using c'(2,3) by (intro exI[of _ c']) (simp add: r)
next
  fix key sec and depots other :: pydict and depot_id
  assume "chosen_section config key sec \<and> old_depots sec depots
        \<and> map_of depots_config k_depots = Some (VDict other)"
  assume "map_of other depot_id = None"
  then show "map_of (dict_update depots other) depot_id = map_of depots depot_id"
    by (rule dict_update_keeps)
qed

lemma ex_merged: "merged_config ex_config ex_depots_config = Returns (Some ex_config_merged)"
  by (simp add: merged_config_def find_steam_def merge_depots_def put_steam_def
      setdefault_depots_def dict_update_def ex_config_def ex_depots_config_def
      ex_config_merged_def k_ics_def k_software_def k_Valve_def k_valve_def k_depots_def)

text \<open>
  The lower-case section is found; depot 228980 keeps its key, 456 and 789 get theirs. A
  configuration without the parent section is left as it is.
\<close>

theorem depotkey_merge_sections_witness:
  "depotkey_merge Returns (\<lambda>c. c) (Some ex_config) ex_depots_config =
     \<lparr>merge_ok = True, merge_file = Some ex_config_merged, merge_log = MergeDone\<rparr>
   \<and> chosen_section ex_config k_valve
        [(''Steam'', VDict [(''AutoUpdateWindowEnabled'', VStr ''0'')]),
         (k_depots, VDict
            [(''228980'', VDict [(''DecryptionKey'', VStr ''aa11'')]),
             (''456'', VDict [(''DecryptionKey'', VStr ''0000'')])])]
   \<and> vdf_path (VDict ex_config_merged) (depots_path k_valve @ [''228980'', ''DecryptionKey''])
        = Some (VStr ''aa11'')
   \<and> section_at [] k_Valve = None \<and> section_at [] k_valve = None
   \<and> depotkey_merge Returns (\<lambda>c. c) (Some []) ex_depots_config =
       \<lparr>merge_ok = False, merge_file = Some [], merge_log = SectionMissing\<rparr>"
proof -
  have ch: "chosen_section ex_config k_valve
        [(''Steam'', VDict [(''AutoUpdateWindowEnabled'', VStr ''0'')]),
         (k_depots, VDict
            [(''228980'', VDict [(''DecryptionKey'', VStr ''aa11'')]),
             (''456'', VDict [(''DecryptionKey'', VStr ''0000'')])])]"
    by (simp add: chosen_section_def section_at_def ex_config_def
        k_ics_def k_software_def k_Valve_def k_valve_def k_depots_def)
  have p: "vdf_path (VDict ex_config_merged) (depots_path k_valve @ [''228980'', ''DecryptionKey''])
        = Some (VStr ''aa11'')"
    by (simp add: depots_path_def ex_config_merged_def
        k_ics_def k_software_def k_Valve_def k_valve_def k_depots_def)
  have e: "section_at [] k_Valve = None" "section_at [] k_valve = None"
    by (simp_all add: section_at_def)
  have f: "depotkey_merge Returns (\<lambda>c. c) (Some []) ex_depots_config =
       \<lparr>merge_ok = False, merge_file = Some [], merge_log = SectionMissing\<rparr>"
    using depotkey_merge_sections[of Returns "[]" "[]" "\<lambda>c. c" ex_depots_config] e
    by (simp add: depotkey_merge_def merged_config_def find_steam_def)
  show ?thesis
    using depotkey_merge_sections[of Returns ex_config ex_config "\<lambda>c. c" ex_depots_config] ch p e f
    by (simp add: depotkey_merge_def ex_merged)
qed

text \<open>
  The claim as stated fails where the section exists and is empty: \<open>if not steam\<close> takes it
  for missing, nothing is merged and \<open>False\<close> is returned.
\<close>

theorem depotkey_merge_empty_section_counterexample:
  "section_at ex_config_empty_section k_Valve = Some (VDict [])
   \<and> depotkey_merge Returns (\<lambda>c. c) (Some ex_config_empty_section) ex_depots_config =
       \<lparr>merge_ok = False, merge_file = Some ex_config_empty_section, merge_log = SectionMissing\<rparr>"
  by (simp add: section_at_def depotkey_merge_def merged_config_def find_steam_def
      ex_config_empty_section_def k_ics_def k_software_def k_Valve_def k_valve_def)

text \<open>The second merge of the example leaves the merged configuration as it is.\<close>

theorem depotkey_merge_idempotent_witness:
  "merge_file (depotkey_merge Returns (\<lambda>c. c) (Some ex_config) ex_depots_config)
     = Some ex_config_merged
   \<and> merge_file (depotkey_merge Returns (\<lambda>c. c) (Some ex_config_merged) ex_depots_config)
     = Some ex_config_merged"
  using depotkey_merge_idempotent[of "Some ex_config" Returns ex_depots_config "\<lambda>c. c"]
  by (simp add: depotkey_merge_def ex_merged)

section \<open>Properties of the script merge\<close>


lemma universal_newlines_crlf:
  "universal_newlines (carriage_return # newline # cs) = newline # universal_newlines cs"
  by simp


















lemma pystr_of_append: "pystr_of (a @ b) = pystr_of a @ pystr_of b"
  by (simp add: pystr_of_def)


































end
